theory Spec2Isabelle
  imports Main "HOL-Library.Char_ord" "HOL-Library.List_Lexorder" "HOL-Library.Option_ord"
begin

section \<open>The code store of the NFC access bot\<close>

text \<open>
  The bot keeps three SQLite tables (\<^verbatim>\<open>ensure_db\<close>). A table is the list of its rows in
  insertion order; no statement of the program deletes a row. Text columns are strings,
  the INTEGER user ids are Python's unbounded ints, a nullable column is an option.
  Timestamps are the ISO strings that \<^verbatim>\<open>now_utc().isoformat()\<close> writes; the reading of the
  clock is an input of every operation that takes one.
\<close>

record key_row =
  code :: string
  product_id :: "string option"
  assigned_user_id :: "int option"
  status :: string
  created_at :: string
  claimed_at :: "string option"

record user_row =
  user_id :: int
  username :: "string option"
  first_seen :: string

record log_row =
  log_user_id :: "int option"
  log_code :: "string option"
  action :: string
  reason :: string
  log_created_at :: string

record world =
  users :: "user_row list"
  nfc_keys :: "key_row list"
  access_logs :: "log_row list"

subsection \<open>Statements on \<^verbatim>\<open>nfc_keys\<close>\<close>

text \<open>\<^verbatim>\<open>SELECT ... FROM nfc_keys WHERE code=?\<close> followed by \<^verbatim>\<open>fetchone()\<close>: the first row
  with that code, if any.\<close>

definition get_key :: "string \<Rightarrow> key_row list \<Rightarrow> key_row option" where
  "get_key c db = find (\<lambda>r. code r = c) db"

text \<open>\<^verbatim>\<open>UPDATE nfc_keys SET ... WHERE code=?\<close>: every row with that code is rewritten.\<close>

definition update_where_code :: "string \<Rightarrow> (key_row \<Rightarrow> key_row) \<Rightarrow> key_row list \<Rightarrow> key_row list" where
  "update_where_code c f db = map (\<lambda>r. if code r = c then f r else r) db"

subsection \<open>\<^verbatim>\<open>claim_key_for_user\<close>\<close>

text \<open>
  The function makes two round trips to the database with an \<^verbatim>\<open>await\<close> between them:
  the SELECT of \<^verbatim>\<open>status, assigned_user_id\<close> (\<open>claim_select\<close>) and, from the row it read,
  the decision with its UPDATE and commit (\<open>claim_decide\<close>). Run without interruption
  the two make \<open>claim_key_for_user\<close>.
\<close>

definition claim_select :: "string \<Rightarrow> key_row list \<Rightarrow> (string \<times> int option) option" where
  "claim_select c db = map_option (\<lambda>r. (status r, assigned_user_id r)) (get_key c db)"

definition claim_decide ::
  "string \<Rightarrow> int \<Rightarrow> string \<Rightarrow> (string \<times> int option) option \<Rightarrow> key_row list \<Rightarrow> bool \<times> key_row list" where
  "claim_decide c uid now row db =
     (case row of
        None \<Rightarrow> (False, db)
      | Some (st, owner) \<Rightarrow>
          if st = ''revoked'' then (False, db)
          else if owner = None then
            (True, update_where_code c
               (\<lambda>r. r\<lparr>assigned_user_id := Some uid, status := ''claimed'', claimed_at := Some now\<rparr>) db)
          else (owner = Some uid, db))"

definition claim_key_for_user :: "string \<Rightarrow> int \<Rightarrow> string \<Rightarrow> key_row list \<Rightarrow> bool \<times> key_row list" where
  "claim_key_for_user c uid now db = claim_decide c uid now (claim_select c db) db"

text \<open>
  Two calls for the same code whose SELECTs are both answered before either UPDATE. The
  dispatcher runs the handlers of different messages as separate tasks, every call opens
  a connection of its own, and a task can be suspended at the \<^verbatim>\<open>await\<close> after its SELECT;
  no transaction spans the SELECT and the UPDATE, and the UPDATE does not test the owner
  again. The result is the two return values and the table after both commits.
\<close>

definition interleaved_claims ::
  "string \<Rightarrow> int \<Rightarrow> string \<Rightarrow> int \<Rightarrow> string \<Rightarrow> key_row list \<Rightarrow> (bool \<times> bool) \<times> key_row list" where
  "interleaved_claims c u1 t1 u2 t2 db =
     (let row1 = claim_select c db;
          row2 = claim_select c db;
          (ok1, db1) = claim_decide c u1 t1 row1 db;
          (ok2, db2) = claim_decide c u2 t2 row2 db1
      in ((ok1, ok2), db2))"

text \<open>
  One call seen from the table: its SELECT was answered on the table \<open>db_read\<close>, and
  by the time its UPDATE runs other calls have committed and the table is \<open>db_now\<close>.
\<close>

definition stale_claim ::
  "string \<Rightarrow> int \<Rightarrow> string \<Rightarrow> key_row list \<Rightarrow> key_row list \<Rightarrow> bool \<times> key_row list" where
  "stale_claim c uid now db_read db_now = claim_decide c uid now (claim_select c db_read) db_now"

subsection \<open>\<^verbatim>\<open>revoke_key\<close>\<close>

definition revoke_key :: "string \<Rightarrow> key_row list \<Rightarrow> bool \<times> key_row list" where
  "revoke_key c db =
     (if get_key c db = None then (False, db)
      else (True, update_where_code c (\<lambda>r. r\<lparr>status := ''revoked''\<rparr>) db))"

subsection \<open>\<^verbatim>\<open>create_keys_batch\<close>\<close>

text \<open>
  \<^verbatim>\<open>secrets.choice(alphabet)\<close> is \<^verbatim>\<open>alphabet[randbelow(36)]\<close>. The entropy is an input: a
  list of natural numbers, one consumed by each call and reduced into the range of the
  alphabet. A code takes twelve of them. \<open>gen_code\<close> is \<open>None\<close> when fewer than twelve
  are left: the supply given to the model is used up.
\<close>

definition alphabet :: string where
  "alphabet = ''ABCDEFGHIJKLMNOPQRSTUVWXYZ0123456789''"

definition choice :: "nat \<Rightarrow> char" where
  "choice d = alphabet ! (d mod length alphabet)"

definition gen_code :: "nat list \<Rightarrow> (string \<times> nat list) option" where
  "gen_code rnd = (if length rnd < 12 then None else Some (map choice (take 12 rnd), drop 12 rnd))"

text \<open>The \<^verbatim>\<open>while True\<close> loop: draw a code until the SELECT finds no row with it. With
  a finite supply of entropy the loop either breaks or uses the supply up (\<open>None\<close>).\<close>

function fresh_code :: "key_row list \<Rightarrow> nat list \<Rightarrow> (string \<times> nat list) option" where
  "fresh_code db rnd =
     (case gen_code rnd of
        None \<Rightarrow> None
      | Some (c, rnd') \<Rightarrow> if get_key c db \<noteq> None then fresh_code db rnd' else Some (c, rnd'))"
  by pat_completeness auto
termination
  by (relation "measure (\<lambda>(db, rnd). length rnd)") (auto simp: gen_code_def split: if_splits)

declare fresh_code.simps [simp del]

text \<open>The codes a supply of entropy holds: one for every twelve draws, in the order in
  which the loop would draw them.\<close>

function candidates :: "nat list \<Rightarrow> string list" where
  "candidates rnd =
     (case gen_code rnd of None \<Rightarrow> [] | Some (c, rnd') \<Rightarrow> c # candidates rnd')"
  by pat_completeness auto
termination
  by (relation "measure length") (auto simp: gen_code_def split: if_splits)

declare candidates.simps [simp del]

text \<open>The row of the INSERT. The primary key cannot reject it: the SELECT just before
  found no row with the code.\<close>

definition new_row :: "string \<Rightarrow> string option \<Rightarrow> string \<Rightarrow> key_row" where
  "new_row c pid now =
     \<lparr>code = c, product_id = pid, assigned_user_id = None, status = ''new'',
      created_at = now, claimed_at = None\<rparr>"

text \<open>The \<^verbatim>\<open>for _ in range(amount)\<close> loop with \<open>n\<close> iterations left, \<open>i\<close> done;
  \<open>clock i\<close> is the reading of the clock in iteration \<open>i\<close>.\<close>

fun create_loop ::
  "nat \<Rightarrow> nat \<Rightarrow> string option \<Rightarrow> (nat \<Rightarrow> string) \<Rightarrow> nat list \<Rightarrow> string list \<Rightarrow> key_row list
     \<Rightarrow> (string list \<times> key_row list) option" where
  "create_loop 0 i pid clock rnd codes db = Some (codes, db)"
| "create_loop (Suc n) i pid clock rnd codes db =
     (case fresh_code db rnd of
        None \<Rightarrow> None
      | Some (c, rnd') \<Rightarrow>
          create_loop n (Suc i) pid clock rnd' (codes @ [c]) (db @ [new_row c pid (clock i)]))"

text \<open>\<^verbatim>\<open>range(amount)\<close> is empty for a negative amount.\<close>

definition create_keys_batch ::
  "int \<Rightarrow> string option \<Rightarrow> (nat \<Rightarrow> string) \<Rightarrow> nat list \<Rightarrow> key_row list
     \<Rightarrow> (string list \<times> key_row list) option" where
  "create_keys_batch amount pid clock rnd db = create_loop (nat amount) 0 pid clock rnd [] db"

subsection \<open>Histories of the code store\<close>

text \<open>A request to the three functions that write \<^verbatim>\<open>nfc_keys\<close>, with the inputs the call
  takes from outside (clock, entropy), and the store after a sequence of requests served
  one after another. A batch that uses its entropy up has no store after it.\<close>

datatype request =
    Claim string int string
  | Revoke string
  | Generate int "string option" "nat \<Rightarrow> string" "nat list"

fun apply_request :: "request \<Rightarrow> key_row list \<Rightarrow> key_row list option" where
  "apply_request (Claim c uid now) db = Some (snd (claim_key_for_user c uid now db))"
| "apply_request (Revoke c) db = Some (snd (revoke_key c db))"
| "apply_request (Generate amount pid clock rnd) db =
     map_option snd (create_keys_batch amount pid clock rnd db)"

fun run :: "request list \<Rightarrow> key_row list \<Rightarrow> key_row list option" where
  "run [] db = Some db"
| "run (q # qs) db = (case apply_request q db of None \<Rightarrow> None | Some db' \<Rightarrow> run qs db')"

text \<open>The three statuses, and the status moves the data model allows for one record.\<close>

definition status_ok :: "key_row \<Rightarrow> bool" where
  "status_ok r = (status r = ''new'' \<or> status r = ''claimed'' \<or> status r = ''revoked'')"

definition status_step :: "string \<Rightarrow> string \<Rightarrow> bool" where
  "status_step s s' =
     (s' = s \<or> (s = ''new'' \<and> s' = ''claimed'')
      \<or> ((s = ''new'' \<or> s = ''claimed'') \<and> s' = ''revoked''))"

subsection \<open>\<^verbatim>\<open>add_log\<close> and \<^verbatim>\<open>upsert_user\<close>\<close>

text \<open>The AUTOINCREMENT id of a log row is its position in the list.\<close>

definition add_log :: "int option \<Rightarrow> string option \<Rightarrow> string \<Rightarrow> string \<Rightarrow> string \<Rightarrow> world \<Rightarrow> world" where
  "add_log uid c act rsn now w =
     w\<lparr>access_logs := access_logs w @
        [\<lparr>log_user_id = uid, log_code = c, action = act, reason = rsn, log_created_at = now\<rparr>]\<rparr>"

definition upsert_user :: "int \<Rightarrow> string option \<Rightarrow> string \<Rightarrow> world \<Rightarrow> world" where
  "upsert_user uid uname now w =
     (if find (\<lambda>u. user_id u = uid) (users w) \<noteq> None
      then w\<lparr>users := map (\<lambda>u. if user_id u = uid then u\<lparr>username := uname\<rparr> else u) (users w)\<rparr>
      else w\<lparr>users := users w @ [\<lparr>user_id = uid, username = uname, first_seen = now\<rparr>]\<rparr>)"

subsection \<open>\<^verbatim>\<open>cmd_start\<close>\<close>

text \<open>
  The handler's inputs: the sender's id and username, \<open>c\<close> the stripped argument of the
  command (\<^verbatim>\<open>(command.args or "").strip()\<close>), the clock, and the answer of Telegram to
  \<^verbatim>\<open>create_chat_invite_link\<close>: a link, or \<open>None\<close> when the call raises. \<open>clock k\<close> is the
  reading at the \<open>k\<close>-th place where the text of the handler reads the clock, counted
  from 0 (the reading for \<^verbatim>\<open>expire_date\<close>, place 6, goes to Telegram only). What was
  committed before an exception stays committed. Failures of the database itself are
  not modelled.
\<close>

datatype error = InviteError

datatype start_reply =
    Greeting
  | CodeNotFound
  | CodeRevoked
  | OwnedByAnother
  | KeyConfirmed "string option" string

definition cmd_start ::
  "int \<Rightarrow> string option \<Rightarrow> string \<Rightarrow> (nat \<Rightarrow> string) \<Rightarrow> string option \<Rightarrow> world
     \<Rightarrow> (error + start_reply) \<times> world" where
  "cmd_start uid uname c clock invite w =
     (let w1 = upsert_user uid uname (clock 0) w in
      if c = [] then (Inr Greeting, w1)
      else
        let w2 = add_log (Some uid) (Some c) ''attempt'' ''start_param'' (clock 1) w1 in
        case get_key c (nfc_keys w2) of
          None \<Rightarrow>
            (Inr CodeNotFound,
             add_log (Some uid) (Some c) ''rejected'' ''code_not_found'' (clock 2) w2)
        | Some row \<Rightarrow>
            if status row = ''revoked'' then
              (Inr CodeRevoked,
               add_log (Some uid) (Some c) ''rejected'' ''code_revoked'' (clock 3) w2)
            else
              (case claim_key_for_user c uid (clock 4) (nfc_keys w2) of
                 (ok, db') \<Rightarrow>
                   let w3 = w2\<lparr>nfc_keys := db'\<rparr> in
                   if \<not> ok then
                     (Inr OwnedByAnother,
                      add_log (Some uid) (Some c) ''rejected'' ''owned_by_another'' (clock 5) w3)
                   else
                     (case invite of
                        None \<Rightarrow> (Inl InviteError, w3)
                      | Some link \<Rightarrow>
                          (Inr (KeyConfirmed (product_id row) link),
                           add_log (Some uid) (Some c) ''invite_created'' ''start_flow'' (clock 7) w3))))"

text \<open>A clock for examples: reading \<open>k\<close> is second \<open>k mod 10\<close> of one minute.\<close>

definition tick :: "nat \<Rightarrow> string" where
  "tick k = ''2024-05-01T10:00:0'' @ [''0123456789'' ! (k mod 10)] @ ''+00:00''"

subsection \<open>\<^verbatim>\<open>cmd_access\<close>\<close>

text \<open>
  \<^verbatim>\<open>SELECT code FROM nfc_keys WHERE assigned_user_id=? AND status='claimed'
  ORDER BY claimed_at DESC LIMIT 1\<close>. SQLite orders text by its bytes and puts NULL below
  every text; that is the order of \<open>string option\<close> here. Among rows with the same
  \<^verbatim>\<open>claimed_at\<close> SQLite promises no order; the model takes the first in the table.
\<close>

definition select_claimed :: "int \<Rightarrow> key_row list \<Rightarrow> key_row list" where
  "select_claimed uid db = filter (\<lambda>r. assigned_user_id r = Some uid \<and> status r = ''claimed'') db"

fun order_desc_limit_1 :: "key_row list \<Rightarrow> key_row option" where
  "order_desc_limit_1 [] = None"
| "order_desc_limit_1 (r # rs) =
     (case order_desc_limit_1 rs of
        None \<Rightarrow> Some r
      | Some b \<Rightarrow> if claimed_at r < claimed_at b then Some b else Some r)"

definition latest_claim :: "int \<Rightarrow> key_row list \<Rightarrow> string option" where
  "latest_claim uid db = map_option code (order_desc_limit_1 (select_claimed uid db))"

text \<open>The handler's inputs are those of \<^verbatim>\<open>/start\<close> without the code; the clock is read
  at place 0 for \<^verbatim>\<open>upsert_user\<close>, at place 1 for \<^verbatim>\<open>expire_date\<close> and at place 2 for
  \<^verbatim>\<open>add_log\<close>.\<close>

datatype access_reply = KeyNotFound | NewLink string

definition cmd_access ::
  "int \<Rightarrow> string option \<Rightarrow> (nat \<Rightarrow> string) \<Rightarrow> string option \<Rightarrow> world
     \<Rightarrow> (error + access_reply) \<times> world" where
  "cmd_access uid uname clock invite w =
     (let w1 = upsert_user uid uname (clock 0) w in
      case latest_claim uid (nfc_keys w1) of
        None \<Rightarrow> (Inr KeyNotFound, w1)
      | Some c \<Rightarrow>
          (case invite of
             None \<Rightarrow> (Inl InviteError, w1)
           | Some link \<Rightarrow>
               (Inr (NewLink link),
                add_log (Some uid) (Some c) ''invite_created'' ''access_cmd'' (clock 2) w1)))"

text \<open>A table for examples: three codes of identity 1, one of them revoked, and one
  code of identity 2.\<close>

definition sample_keys :: "key_row list" where
  "sample_keys =
     [\<lparr>code = ''AAAAAAAAAAAA'', product_id = None, assigned_user_id = Some 1,
        status = ''claimed'', created_at = tick 0, claimed_at = Some (tick 1)\<rparr>,
      \<lparr>code = ''BBBBBBBBBBBB'', product_id = None, assigned_user_id = Some 1,
        status = ''claimed'', created_at = tick 0, claimed_at = Some (tick 3)\<rparr>,
      \<lparr>code = ''CCCCCCCCCCCC'', product_id = None, assigned_user_id = Some 2,
        status = ''claimed'', created_at = tick 0, claimed_at = Some (tick 5)\<rparr>,
      \<lparr>code = ''DDDDDDDDDDDD'', product_id = None, assigned_user_id = Some 1,
        status = ''revoked'', created_at = tick 0, claimed_at = Some (tick 7)\<rparr>]"

subsection \<open>The claim engine as the specification words it\<close>

text \<open>The five steps of the specification's \<^verbatim>\<open>attemptClaim\<close>, on a store that maps a code
  to its record. This definition follows the specification, not the source.\<close>

datatype ClaimResult =
  NOT_FOUND | REJECTED_REVOKED | GRANTED_NEW | GRANTED_EXISTING | REJECTED_OWNED_BY_OTHER

definition attemptClaim_spec ::
  "string \<Rightarrow> int \<Rightarrow> string \<Rightarrow> (string \<rightharpoonup> key_row) \<Rightarrow> ClaimResult \<times> (string \<rightharpoonup> key_row)" where
  "attemptClaim_spec c uid now store =
     (case store c of
        None \<Rightarrow> (NOT_FOUND, store)
      | Some r \<Rightarrow>
          if status r = ''revoked'' then (REJECTED_REVOKED, store)
          else (case assigned_user_id r of
                  None \<Rightarrow>
                    (GRANTED_NEW,
                     store(c \<mapsto> r\<lparr>assigned_user_id := Some uid, status := ''claimed'',
                                   claimed_at := Some now\<rparr>))
                | Some owner \<Rightarrow>
                    if owner = uid then (GRANTED_EXISTING, store)
                    else (REJECTED_OWNED_BY_OTHER, store)))"

text \<open>The store of a table: every code with the row that carries it (the first one,
  should a table without its primary key hold several).\<close>

definition store_of :: "key_row list \<Rightarrow> (string \<rightharpoonup> key_row)" where
  "store_of db = map_of (map (\<lambda>r. (code r, r)) db)"

text \<open>The reply of \<^verbatim>\<open>/start\<close> that stands for a result of the specification. Both grants
  take the one success path of the handler, which ends in the invite link or in the
  error of its creation.\<close>

fun reply_matches :: "ClaimResult \<Rightarrow> error + start_reply \<Rightarrow> bool" where
  "reply_matches NOT_FOUND rep = (rep = Inr CodeNotFound)"
| "reply_matches REJECTED_REVOKED rep = (rep = Inr CodeRevoked)"
| "reply_matches REJECTED_OWNED_BY_OTHER rep = (rep = Inr OwnedByAnother)"
| "reply_matches GRANTED_NEW rep =
     (case rep of Inl e \<Rightarrow> True | Inr (KeyConfirmed p l) \<Rightarrow> True | Inr _ \<Rightarrow> False)"
| "reply_matches GRANTED_EXISTING rep =
     (case rep of Inl e \<Rightarrow> True | Inr (KeyConfirmed p l) \<Rightarrow> True | Inr _ \<Rightarrow> False)"

subsection \<open>The audit entries of \<^verbatim>\<open>/start\<close>\<close>

text \<open>The row \<^verbatim>\<open>add_log\<close> writes for the sender and the code, and the rows the handler
  writes after its decision, by the reply it ends with.\<close>

definition start_log :: "int \<Rightarrow> string \<Rightarrow> string \<Rightarrow> string \<Rightarrow> string \<Rightarrow> log_row" where
  "start_log uid c act rsn t =
     \<lparr>log_user_id = Some uid, log_code = Some c, action = act, reason = rsn, log_created_at = t\<rparr>"

fun decision_logs :: "int \<Rightarrow> string \<Rightarrow> (nat \<Rightarrow> string) \<Rightarrow> error + start_reply \<Rightarrow> log_row list" where
  "decision_logs uid c clock (Inr CodeNotFound) = [start_log uid c ''rejected'' ''code_not_found'' (clock 2)]"
| "decision_logs uid c clock (Inr CodeRevoked) = [start_log uid c ''rejected'' ''code_revoked'' (clock 3)]"
| "decision_logs uid c clock (Inr OwnedByAnother) = [start_log uid c ''rejected'' ''owned_by_another'' (clock 5)]"
| "decision_logs uid c clock (Inr (KeyConfirmed p l)) = [start_log uid c ''invite_created'' ''start_flow'' (clock 7)]"
| "decision_logs uid c clock (Inr Greeting) = []"
| "decision_logs uid c clock (Inl InviteError) = []"

section \<open>Properties\<close>

subsection \<open>Lookups after a statement\<close>

lemma get_key_update_where_code:
  assumes "\<And>r. code (f r) = code r"
  shows "get_key c' (update_where_code c f db) =
           (if c' = c then map_option f (get_key c db) else get_key c' db)"
  using assms by (induction db) (auto simp: get_key_def update_where_code_def)

lemma get_key_None_iff: "get_key c db = None \<longleftrightarrow> c \<notin> code ` set db"
  by (induction db) (auto simp: get_key_def)

lemma get_key_SomeD: "get_key c db = Some r \<Longrightarrow> r \<in> set db \<and> code r = c"
  by (induction db) (auto simp: get_key_def split: if_splits)

lemma get_key_append:
  "get_key c (db @ db2) = (case get_key c db of None \<Rightarrow> get_key c db2 | Some r \<Rightarrow> Some r)"
  by (induction db) (auto simp: get_key_def)



lemma claim_key_for_user_cases:
  "claim_key_for_user c uid now db =
     (case get_key c db of
        None \<Rightarrow> (False, db)
      | Some r \<Rightarrow>
          if status r = ''revoked'' then (False, db)
          else if assigned_user_id r = None then
            (True, update_where_code c
               (\<lambda>r. r\<lparr>assigned_user_id := Some uid, status := ''claimed'', claimed_at := Some now\<rparr>) db)
          else (assigned_user_id r = Some uid, db))"
  by (simp add: claim_key_for_user_def claim_decide_def claim_select_def split: option.splits)

lemma get_key_claim:
  "get_key c' (snd (claim_key_for_user c uid now db)) =
     (case get_key c' db of
        None \<Rightarrow> None
      | Some r \<Rightarrow>
          if c' = c \<and> status r \<noteq> ''revoked'' \<and> assigned_user_id r = None
          then Some (r\<lparr>assigned_user_id := Some uid, status := ''claimed'', claimed_at := Some now\<rparr>)
          else Some r)"
  by (auto simp: claim_key_for_user_cases get_key_update_where_code split: option.splits)

lemma get_key_revoke:
  "get_key c' (snd (revoke_key c db)) =
     (case get_key c' db of
        None \<Rightarrow> None
      | Some r \<Rightarrow> if c' = c then Some (r\<lparr>status := ''revoked''\<rparr>) else Some r)"
  by (auto simp: revoke_key_def get_key_update_where_code split: option.splits)

lemma length_alphabet: "length alphabet = 36"
  by (simp add: alphabet_def)

lemma choice_in_alphabet: "choice d \<in> set alphabet"
  unfolding choice_def by (rule nth_mem) (simp add: length_alphabet)

lemma gen_code_Some:
  "gen_code rnd = Some (c, rnd') \<Longrightarrow>
     length c = 12 \<and> set c \<subseteq> set alphabet \<and> length rnd' < length rnd"
  by (auto simp: gen_code_def choice_in_alphabet split: if_splits)

lemma fresh_code_Some:
  "fresh_code db rnd = Some (c, rnd') \<Longrightarrow>
     get_key c db = None \<and> length c = 12 \<and> set c \<subseteq> set alphabet"
proof (induction db rnd rule: fresh_code.induct)
  case (1 db rnd)
  note unfold = fresh_code.simps[of db rnd]
  show ?case
  proof (cases "gen_code rnd")
    case None
    with "1.prems" unfold show ?thesis by simp
  next
    case (Some p)
    then obtain c0 rnd0 where g: "gen_code rnd = Some (c0, rnd0)" by (cases p) auto
    show ?thesis
    proof (cases "get_key c0 db = None")
      case True
      with "1.prems" g unfold have "c = c0" by simp
      with True gen_code_Some[OF g] show ?thesis by simp
    next
      case False
      with "1.prems" g unfold have "fresh_code db rnd0 = Some (c, rnd')" by simp
      with "1.IH"[OF g refl False] show ?thesis by simp
    qed
  qed
qed

lemma create_loop_Some:
  "create_loop n i pid clock rnd codes db = Some (codes', db') \<Longrightarrow>
     \<exists>cs. length cs = n \<and> codes' = codes @ cs
          \<and> db' = db @ map (\<lambda>(k, c). new_row c pid (clock k)) (zip [i..<i + n] cs)
          \<and> distinct cs \<and> set cs \<inter> code ` set db = {}
          \<and> (\<forall>c\<in>set cs. length c = 12 \<and> set c \<subseteq> set alphabet)"
proof (induction n arbitrary: i rnd codes db)
  case 0
  then show ?case by simp
next
  case (Suc n)
  from Suc.prems obtain c rnd' where
    f: "fresh_code db rnd = Some (c, rnd')" and
    rest: "create_loop n (Suc i) pid clock rnd' (codes @ [c]) (db @ [new_row c pid (clock i)])
             = Some (codes', db')"
    by (auto split: option.splits)
  from fresh_code_Some[OF f] have fresh: "c \<notin> code ` set db"
    and shape: "length c = 12" "set c \<subseteq> set alphabet"
    by (simp_all add: get_key_None_iff)
  from Suc.IH[OF rest] obtain cs where cs:
    "length cs = n" "codes' = (codes @ [c]) @ cs"
    "db' = (db @ [new_row c pid (clock i)])
             @ map (\<lambda>(k, c). new_row c pid (clock k)) (zip [Suc i..<Suc i + n] cs)"
    "distinct cs" "set cs \<inter> code ` set (db @ [new_row c pid (clock i)]) = {}"
    "\<forall>c\<in>set cs. length c = 12 \<and> set c \<subseteq> set alphabet"
    by blast
  have upt: "[i..<i + Suc n] = i # [Suc i..<Suc i + n]"
    by (simp add: upt_conv_Cons)
  from cs(5) have "c \<notin> set cs" by (auto simp: new_row_def)
  with cs fresh shape upt show ?case
    by (intro exI[of _ "c # cs"]) (auto simp: new_row_def)
qed

subsection \<open>Revocation\<close>

text \<open>
  C9. \<^verbatim>\<open>revoke_key(code)\<close> answers success exactly when some row has the code. The rows
  keep their number and order, and the columns \<^verbatim>\<open>code\<close>, \<^verbatim>\<open>product_id\<close>,
  \<^verbatim>\<open>assigned_user_id\<close>, \<^verbatim>\<open>created_at\<close> and \<^verbatim>\<open>claimed_at\<close> of every row are unchanged;
  the status of a row with the code is \<^verbatim>\<open>revoked\<close> whatever it was before, the status of
  any other row is unchanged. In particular the owner is not cleared.
\<close>

theorem revoke_key_frame:
  "(case revoke_key c db of
      (ok, db') \<Rightarrow>
        ok = (c \<in> code ` set db)
        \<and> map code db' = map code db
        \<and> map product_id db' = map product_id db
        \<and> map assigned_user_id db' = map assigned_user_id db
        \<and> map created_at db' = map created_at db
        \<and> map claimed_at db' = map claimed_at db
        \<and> map status db' = map (\<lambda>r. if code r = c then ''revoked'' else status r) db)"
  by (auto simp add: revoke_key_def get_key_None_iff update_where_code_def)

subsection \<open>Requests and histories\<close>

lemma code_new_row: "code (new_row c pid t) = c"
  by (simp add: new_row_def)

lemma get_key_create:
  assumes "create_keys_batch amount pid clock rnd db = Some (codes, db')"
    and "get_key c db = Some r"
  shows "get_key c db' = Some r"
proof -
  from assms(1) obtain new where "db' = db @ new"
    unfolding create_keys_batch_def by (blast dest: create_loop_Some)
  with assms(2) show ?thesis by (simp add: get_key_append)
qed

text \<open>What one request does to the record of a code.\<close>

lemma apply_request_get_key:
  assumes "apply_request q db = Some db'" and "get_key c db = Some r"
  shows "get_key c db' = Some r
       \<or> (status r \<noteq> ''revoked'' \<and> assigned_user_id r = None
          \<and> (\<exists>uid now. get_key c db' =
                Some (r\<lparr>assigned_user_id := Some uid, status := ''claimed'', claimed_at := Some now\<rparr>)))
       \<or> get_key c db' = Some (r\<lparr>status := ''revoked''\<rparr>)"
proof (cases q)
  case (Claim c0 uid now)
  with assms(1) have db': "db' = snd (claim_key_for_user c0 uid now db)" by simp
  show ?thesis
  proof (cases "c = c0 \<and> status r \<noteq> ''revoked'' \<and> assigned_user_id r = None")
    case True
    with assms(2) have "get_key c db' =
        Some (r\<lparr>assigned_user_id := Some uid, status := ''claimed'', claimed_at := Some now\<rparr>)"
      unfolding db' by (simp add: get_key_claim)
    with True show ?thesis by blast
  next
    case False
    with assms(2) have "get_key c db' = Some r"
      unfolding db' by (auto simp: get_key_claim)
    then show ?thesis by simp
  qed
next
  case (Revoke c0)
  with assms(1) have db': "db' = snd (revoke_key c0 db)" by simp
  from assms(2) have "get_key c db' = (if c = c0 then Some (r\<lparr>status := ''revoked''\<rparr>) else Some r)"
    unfolding db' by (simp add: get_key_revoke)
  then show ?thesis by (cases "c = c0") simp_all
next
  case (Generate amount pid clock rnd)
  with assms(1) obtain codes where "create_keys_batch amount pid clock rnd db = Some (codes, db')"
    by auto
  from get_key_create[OF this assms(2)] show ?thesis by simp
qed

lemma apply_request_owner:
  assumes "apply_request q db = Some db'" and "get_key c db = Some r"
    and "assigned_user_id r = Some u"
  shows "\<exists>r'. get_key c db' = Some r' \<and> assigned_user_id r' = Some u"
  using apply_request_get_key[OF assms(1,2)] assms(3) by auto

lemma run_owner:
  assumes "run qs db = Some db'" and "get_key c db = Some r"
    and "assigned_user_id r = Some u"
  shows "\<exists>r'. get_key c db' = Some r' \<and> assigned_user_id r' = Some u"
  using assms
proof (induction qs arbitrary: db r)
  case Nil
  then show ?case by simp
next
  case (Cons q qs)
  from Cons.prems(1) obtain db1 where q: "apply_request q db = Some db1"
    and qs: "run qs db1 = Some db'"
    by (auto split: option.splits)
  from apply_request_owner[OF q Cons.prems(2,3)] obtain r1 where
    "get_key c db1 = Some r1" "assigned_user_id r1 = Some u" by blast
  from Cons.IH[OF qs this] show ?case .
qed

lemma apply_request_revoked:
  assumes "apply_request q db = Some db'" and "get_key c db = Some r"
    and "status r = ''revoked''"
  shows "\<exists>r'. get_key c db' = Some r' \<and> status r' = ''revoked''"
  using apply_request_get_key[OF assms(1,2)] assms(3) by auto

lemma run_revoked:
  assumes "run qs db = Some db'" and "get_key c db = Some r"
    and "status r = ''revoked''"
  shows "\<exists>r'. get_key c db' = Some r' \<and> status r' = ''revoked''"
  using assms
proof (induction qs arbitrary: db r)
  case Nil
  then show ?case by simp
next
  case (Cons q qs)
  from Cons.prems(1) obtain db1 where q: "apply_request q db = Some db1"
    and qs: "run qs db1 = Some db'"
    by (auto split: option.splits)
  from apply_request_revoked[OF q Cons.prems(2,3)] obtain r1 where
    "get_key c db1 = Some r1" "status r1 = ''revoked''" by blast
  from Cons.IH[OF qs this] show ?case .
qed

subsection \<open>The owner of a record, calls in sequence\<close>

text \<open>
  When the calls are served one after another, none starting before the one before it
  has committed, a record that has an owner keeps it through any sequence of calls of
  \<^verbatim>\<open>claim_key_for_user\<close>, \<^verbatim>\<open>revoke_key\<close> and \<^verbatim>\<open>create_keys_batch\<close>; a claim for the code
  then leaves the table as it is and is granted only to that owner (and only while the
  code is not revoked).
\<close>

theorem owner_kept_in_sequence:
  assumes "get_key c db = Some r" and "assigned_user_id r = Some u"
    and "run qs db = Some db'"
  shows "\<exists>r'. get_key c db' = Some r' \<and> assigned_user_id r' = Some u
             \<and> claim_key_for_user c uid now db' = (status r' \<noteq> ''revoked'' \<and> uid = u, db')"
proof -
  from run_owner[OF assms(3,1,2)] obtain r' where
    r': "get_key c db' = Some r'" "assigned_user_id r' = Some u" by blast
  then have "claim_key_for_user c uid now db' = (status r' \<noteq> ''revoked'' \<and> uid = u, db')"
    by (auto simp: claim_key_for_user_cases)
  with r' show ?thesis by blast
qed

theorem owner_kept_in_sequence_example:
  "get_key ''ABC123456789''
     [\<lparr>code = ''ABC123456789'', product_id = None, assigned_user_id = Some 1,
       status = ''claimed'', created_at = ''2024-05-01T10:00:00+00:00'',
       claimed_at = Some ''2024-05-01T10:05:00+00:00''\<rparr>]
   = Some \<lparr>code = ''ABC123456789'', product_id = None, assigned_user_id = Some 1,
       status = ''claimed'', created_at = ''2024-05-01T10:00:00+00:00'',
       claimed_at = Some ''2024-05-01T10:05:00+00:00''\<rparr>
   \<and> run [Claim ''ABC123456789'' 2 ''2024-05-01T10:06:00+00:00'', Revoke ''ABC123456789'']
     [\<lparr>code = ''ABC123456789'', product_id = None, assigned_user_id = Some 1,
       status = ''claimed'', created_at = ''2024-05-01T10:00:00+00:00'',
       claimed_at = Some ''2024-05-01T10:05:00+00:00''\<rparr>]
   = Some [\<lparr>code = ''ABC123456789'', product_id = None, assigned_user_id = Some 1,
       status = ''revoked'', created_at = ''2024-05-01T10:00:00+00:00'',
       claimed_at = Some ''2024-05-01T10:05:00+00:00''\<rparr>]
   \<and> (\<exists>r'. get_key ''ABC123456789''
         [\<lparr>code = ''ABC123456789'', product_id = None, assigned_user_id = Some 1,
           status = ''revoked'', created_at = ''2024-05-01T10:00:00+00:00'',
           claimed_at = Some ''2024-05-01T10:05:00+00:00''\<rparr>] = Some r'
       \<and> assigned_user_id r' = Some 1
       \<and> claim_key_for_user ''ABC123456789'' 2 ''2024-05-01T10:07:00+00:00''
            [\<lparr>code = ''ABC123456789'', product_id = None, assigned_user_id = Some 1,
              status = ''revoked'', created_at = ''2024-05-01T10:00:00+00:00'',
              claimed_at = Some ''2024-05-01T10:05:00+00:00''\<rparr>]
          = (status r' \<noteq> ''revoked'' \<and> (2::int) = 1,
             [\<lparr>code = ''ABC123456789'', product_id = None, assigned_user_id = Some 1,
               status = ''revoked'', created_at = ''2024-05-01T10:00:00+00:00'',
               claimed_at = Some ''2024-05-01T10:05:00+00:00''\<rparr>]))"
proof -
  let ?c = "''ABC123456789''"
  let ?r = "\<lparr>code = ?c, product_id = None, assigned_user_id = Some (1::int),
       status = ''claimed'', created_at = ''2024-05-01T10:00:00+00:00'',
       claimed_at = Some ''2024-05-01T10:05:00+00:00''\<rparr>"
  let ?qs = "[Claim ?c 2 ''2024-05-01T10:06:00+00:00'', Revoke ?c]"
  have h1: "get_key ?c [?r] = Some ?r" by (simp add: get_key_def)
  have h2: "assigned_user_id ?r = Some 1" by simp
  have h3: "run ?qs [?r] = Some [?r\<lparr>status := ''revoked''\<rparr>]"
    by (simp add: claim_key_for_user_cases revoke_key_def get_key_def update_where_code_def)
  from owner_kept_in_sequence[OF h1 h2 h3, of 2 "''2024-05-01T10:07:00+00:00''"] h1 h3
  show ?thesis by simp
qed

subsection \<open>Claiming again\<close>

lemma claim_True_owner:
  assumes "claim_key_for_user c u now db = (True, db1)"
  shows "\<exists>r1. get_key c db1 = Some r1 \<and> status r1 \<noteq> ''revoked'' \<and> assigned_user_id r1 = Some u"
proof -
  from assms have db1: "db1 = snd (claim_key_for_user c u now db)" by simp
  from assms obtain r where r: "get_key c db = Some r" "status r \<noteq> ''revoked''"
    and own: "assigned_user_id r = None \<or> assigned_user_id r = Some u"
    by (auto simp: claim_key_for_user_cases split: option.splits if_splits)
  from r own show ?thesis unfolding db1 get_key_claim by auto
qed

lemma reclaim_fixed:
  assumes "get_key c db1 = Some r1" "status r1 \<noteq> ''revoked''" "assigned_user_id r1 = Some u"
  shows "claim_key_for_user c u t db1 = (True, db1)"
  using assms by (simp add: claim_key_for_user_cases)

lemma run_reclaims:
  assumes "\<And>t. claim_key_for_user c u t db1 = (True, db1)"
  shows "run (map (Claim c u) ts) db1 = Some db1"
  using assms by (induction ts) simp_all

text \<open>
  C4. After \<^verbatim>\<open>claim_key_for_user(code, u)\<close> has returned \<^verbatim>\<open>True\<close>, the same call returns
  \<^verbatim>\<open>True\<close> again and leaves the store unchanged, at any time of the clock and repeated
  any number of times.
\<close>

theorem reclaim_idempotent:
  assumes "claim_key_for_user c u now db = (True, db1)"
  shows "claim_key_for_user c u t db1 = (True, db1) \<and> run (map (Claim c u) ts) db1 = Some db1"
proof -
  from claim_True_owner[OF assms] obtain r1 where
    "get_key c db1 = Some r1" "status r1 \<noteq> ''revoked''" "assigned_user_id r1 = Some u" by blast
  then have "\<And>t. claim_key_for_user c u t db1 = (True, db1)" by (rule reclaim_fixed)
  then show ?thesis using run_reclaims[of c u db1 ts] by simp
qed

theorem reclaim_idempotent_witness:
  "claim_key_for_user ''ABC123456789'' 1 ''2024-05-01T10:05:00+00:00''
     [new_row ''ABC123456789'' None ''2024-05-01T10:00:00+00:00'']
   = (True, [\<lparr>code = ''ABC123456789'', product_id = None, assigned_user_id = Some 1,
       status = ''claimed'', created_at = ''2024-05-01T10:00:00+00:00'',
       claimed_at = Some ''2024-05-01T10:05:00+00:00''\<rparr>])
   \<and> claim_key_for_user ''ABC123456789'' 1 ''2024-05-01T10:06:00+00:00''
     [\<lparr>code = ''ABC123456789'', product_id = None, assigned_user_id = Some 1,
       status = ''claimed'', created_at = ''2024-05-01T10:00:00+00:00'',
       claimed_at = Some ''2024-05-01T10:05:00+00:00''\<rparr>]
   = (True, [\<lparr>code = ''ABC123456789'', product_id = None, assigned_user_id = Some 1,
       status = ''claimed'', created_at = ''2024-05-01T10:00:00+00:00'',
       claimed_at = Some ''2024-05-01T10:05:00+00:00''\<rparr>])
   \<and> run (map (Claim ''ABC123456789'' 1)
          [''2024-05-01T10:07:00+00:00'', ''2024-05-01T10:08:00+00:00''])
     [\<lparr>code = ''ABC123456789'', product_id = None, assigned_user_id = Some 1,
       status = ''claimed'', created_at = ''2024-05-01T10:00:00+00:00'',
       claimed_at = Some ''2024-05-01T10:05:00+00:00''\<rparr>]
   = Some [\<lparr>code = ''ABC123456789'', product_id = None, assigned_user_id = Some 1,
       status = ''claimed'', created_at = ''2024-05-01T10:00:00+00:00'',
       claimed_at = Some ''2024-05-01T10:05:00+00:00''\<rparr>]"
proof -
  let ?c = "''ABC123456789''"
  have h: "claim_key_for_user ?c 1 ''2024-05-01T10:05:00+00:00''
             [new_row ?c None ''2024-05-01T10:00:00+00:00'']
           = (True, [\<lparr>code = ?c, product_id = None, assigned_user_id = Some 1,
               status = ''claimed'', created_at = ''2024-05-01T10:00:00+00:00'',
               claimed_at = Some ''2024-05-01T10:05:00+00:00''\<rparr>])"
    by (simp add: claim_key_for_user_cases get_key_def update_where_code_def new_row_def)
  from reclaim_idempotent[OF h, of "''2024-05-01T10:06:00+00:00''"
      "[''2024-05-01T10:07:00+00:00'', ''2024-05-01T10:08:00+00:00'']"] h
  show ?thesis by blast
qed

subsection \<open>The \<^verbatim>\<open>/start\<close> handler\<close>

lemma nfc_keys_upsert_user [simp]: "nfc_keys (upsert_user uid uname t w) = nfc_keys w"
  by (simp add: upsert_user_def)

lemma access_logs_upsert_user [simp]: "access_logs (upsert_user uid uname t w) = access_logs w"
  by (simp add: upsert_user_def)

lemma nfc_keys_add_log [simp]: "nfc_keys (add_log uid c act rsn t w) = nfc_keys w"
  by (simp add: add_log_def)

lemma access_logs_add_log [simp]:
  "access_logs (add_log uid c act rsn t w) =
     access_logs w @ [\<lparr>log_user_id = uid, log_code = c, action = act, reason = rsn, log_created_at = t\<rparr>]"
  by (simp add: add_log_def)

text \<open>The reply and the code store of \<^verbatim>\<open>/start\<close>, by the record found for the code.\<close>

lemma cmd_start_not_found:
  assumes "c \<noteq> []" and "get_key c (nfc_keys w) = None"
  shows "fst (cmd_start uid uname c clock invite w) = Inr CodeNotFound"
    and "nfc_keys (snd (cmd_start uid uname c clock invite w)) = nfc_keys w"
  using assms by (simp_all add: cmd_start_def Let_def)

lemma cmd_start_revoked:
  assumes "c \<noteq> []" and "get_key c (nfc_keys w) = Some r" and "status r = ''revoked''"
  shows "fst (cmd_start uid uname c clock invite w) = Inr CodeRevoked"
    and "nfc_keys (snd (cmd_start uid uname c clock invite w)) = nfc_keys w"
  using assms by (simp_all add: cmd_start_def Let_def)

lemma cmd_start_claim:
  assumes "c \<noteq> []" and "get_key c (nfc_keys w) = Some r" and "status r \<noteq> ''revoked''"
    and "claim_key_for_user c uid (clock 4) (nfc_keys w) = (ok, db')"
  shows "fst (cmd_start uid uname c clock invite w) =
           (if \<not> ok then Inr OwnedByAnother
            else case invite of None \<Rightarrow> Inl InviteError
                 | Some link \<Rightarrow> Inr (KeyConfirmed (product_id r) link))"
    and "nfc_keys (snd (cmd_start uid uname c clock invite w)) = db'"
  using assms by (simp_all add: cmd_start_def Let_def split: option.splits)

lemma store_of_get_key: "store_of db c = get_key c db"
  by (induction db) (simp_all add: store_of_def get_key_def)

lemma store_of_None_iff: "store_of db c = None \<longleftrightarrow> c \<notin> code ` set db"
  by (induction db) (auto simp: store_of_def)

text \<open>Under the primary key the store holds exactly the rows of the table, each under
  its code.\<close>

lemma store_of_iff:
  "distinct (map code db) \<Longrightarrow> store_of db c = Some r \<longleftrightarrow> r \<in> set db \<and> code r = c"
  by (induction db) (auto simp: store_of_def rev_image_eqI)

lemma store_of_update:
  assumes "\<And>r. code (f r) = code r" and "get_key c db = Some r"
  shows "store_of (update_where_code c f db) = (store_of db)(c \<mapsto> f r)"
  using assms by (auto simp: store_of_get_key get_key_update_where_code fun_eq_iff)

lemma claim_refines_spec:
  "(case claim_key_for_user c uid now db of
      (ok, db') \<Rightarrow>
        (case attemptClaim_spec c uid now (store_of db) of
           (res, store') \<Rightarrow>
             ok = (res = GRANTED_NEW \<or> res = GRANTED_EXISTING)
             \<and> store_of db' = store'
             \<and> db' = (if res = GRANTED_NEW
                      then map (\<lambda>r. if code r = c
                                     then r\<lparr>assigned_user_id := Some uid, status := ''claimed'',
                                            claimed_at := Some now\<rparr>
                                     else r) db
                      else db)))"
proof (cases "get_key c db")
  case None
  then show ?thesis
    by (simp add: claim_key_for_user_cases attemptClaim_spec_def store_of_get_key)
next
  case (Some r)
  show ?thesis
  proof (cases "status r = ''revoked''")
    case True
    with Some show ?thesis
      by (simp add: claim_key_for_user_cases attemptClaim_spec_def store_of_get_key)
  next
    case False
    show ?thesis
    proof (cases "assigned_user_id r")
      case None
      have "store_of (update_where_code c
               (\<lambda>r. r\<lparr>assigned_user_id := Some uid, status := ''claimed'', claimed_at := Some now\<rparr>) db)
            = (store_of db)(c \<mapsto> r\<lparr>assigned_user_id := Some uid, status := ''claimed'',
                                      claimed_at := Some now\<rparr>)"
        by (rule store_of_update) (simp_all add: Some)
      moreover have "store_of db c = Some r" using Some by (simp add: store_of_get_key)
      ultimately show ?thesis using Some False None
        by (simp add: claim_key_for_user_cases attemptClaim_spec_def)
          (simp add: update_where_code_def)
    next
      case (Some owner)
      have "store_of db c = Some r" using \<open>get_key c db = Some r\<close> by (simp add: store_of_get_key)
      with \<open>get_key c db = Some r\<close> False Some show ?thesis
        by (simp add: claim_key_for_user_cases attemptClaim_spec_def)
    qed
  qed
qed

text \<open>
  C3. For a non-empty code the \<^verbatim>\<open>/start\<close> flow (\<^verbatim>\<open>get_key\<close>, then \<^verbatim>\<open>claim_key_for_user\<close>)
  decides as the five steps of the specification do on the store that holds the rows of
  the table under their codes. Its reply is the one that stands for the specified
  result, and the store of the table after it is the specified store. The result is
  \<^verbatim>\<open>NOT_FOUND\<close> exactly when no row of the table has the code. For \<^verbatim>\<open>GRANTED_NEW\<close> the
  table after it is the table before with the requester as owner, the status \<^verbatim>\<open>claimed\<close>
  and the reading of the clock as \<^verbatim>\<open>claimed_at\<close> in the rows with the code; for every
  other result the table is unchanged, so that no row is ever added.
\<close>

theorem cmd_start_implements_attemptClaim:
  assumes "c \<noteq> []"
  shows "(case cmd_start uid uname c clock invite w of
            (rep, w') \<Rightarrow>
              (case attemptClaim_spec c uid (clock 4) (store_of (nfc_keys w)) of
                 (res, store') \<Rightarrow>
                   reply_matches res rep
                   \<and> store_of (nfc_keys w') = store'
                   \<and> (res = NOT_FOUND) = (c \<notin> code ` set (nfc_keys w))
                   \<and> nfc_keys w' =
                       (if res = GRANTED_NEW
                        then map (\<lambda>r. if code r = c
                                       then r\<lparr>assigned_user_id := Some uid, status := ''claimed'',
                                              claimed_at := Some (clock 4)\<rparr>
                                       else r) (nfc_keys w)
                        else nfc_keys w)))"
proof -
  obtain rep w' where cs: "cmd_start uid uname c clock invite w = (rep, w')"
    by (cases "cmd_start uid uname c clock invite w")
  obtain ok db' where ck: "claim_key_for_user c uid (clock 4) (nfc_keys w) = (ok, db')"
    by (cases "claim_key_for_user c uid (clock 4) (nfc_keys w)")
  obtain res store' where sp: "attemptClaim_spec c uid (clock 4) (store_of (nfc_keys w)) = (res, store')"
    by (cases "attemptClaim_spec c uid (clock 4) (store_of (nfc_keys w))")
  have "ok = (res = GRANTED_NEW \<or> res = GRANTED_EXISTING) \<and> store_of db' = store'
      \<and> db' = (if res = GRANTED_NEW
            then map (\<lambda>r. if code r = c
                           then r\<lparr>assigned_user_id := Some uid, status := ''claimed'',
                                  claimed_at := Some (clock 4)\<rparr>
                           else r) (nfc_keys w)
            else nfc_keys w)"
    using claim_refines_spec[where c=c and uid=uid and now="clock 4" and db="nfc_keys w"]
    unfolding ck sp prod.case .
  then have ref: "ok = (res = GRANTED_NEW \<or> res = GRANTED_EXISTING)" "store_of db' = store'"
    "db' = (if res = GRANTED_NEW
            then map (\<lambda>r. if code r = c
                           then r\<lparr>assigned_user_id := Some uid, status := ''claimed'',
                                  claimed_at := Some (clock 4)\<rparr>
                           else r) (nfc_keys w)
            else nfc_keys w)"
    by blast+
  have nf: "(res = NOT_FOUND) = (c \<notin> code ` set (nfc_keys w))"
    using sp store_of_None_iff[of "nfc_keys w" c]
    by (auto simp: attemptClaim_spec_def split: option.splits if_splits)
  have rep: "rep = fst (cmd_start uid uname c clock invite w)"
    and w': "nfc_keys w' = nfc_keys (snd (cmd_start uid uname c clock invite w))"
    using cs by simp_all
  have "reply_matches res rep \<and> nfc_keys w' = db'"
  proof (cases "get_key c (nfc_keys w)")
    case None
    with sp have "res = NOT_FOUND" by (auto simp: attemptClaim_spec_def store_of_get_key)
    moreover from None ck have "db' = nfc_keys w" by (simp add: claim_key_for_user_cases)
    ultimately show ?thesis
      unfolding rep w' using cmd_start_not_found[OF assms None] by simp
  next
    case (Some r)
    show ?thesis
    proof (cases "status r = ''revoked''")
      case True
      with Some sp have "res = REJECTED_REVOKED" by (auto simp: attemptClaim_spec_def store_of_get_key)
      moreover from Some True ck have "db' = nfc_keys w" by (simp add: claim_key_for_user_cases)
      ultimately show ?thesis
        unfolding rep w' using cmd_start_revoked[OF assms Some True] by simp
    next
      case False
      from Some False sp have "res \<noteq> NOT_FOUND" "res \<noteq> REJECTED_REVOKED"
        by (auto simp: attemptClaim_spec_def store_of_get_key split: option.splits if_splits)
      with ref(1) show ?thesis
        unfolding rep w' using cmd_start_claim[where clock=clock and uname=uname and invite=invite, OF assms Some False ck]
        by (cases res; cases invite) simp_all
    qed
  qed
  with ref nf cs sp show ?thesis by simp
qed

theorem cmd_start_implements_attemptClaim_witness:
  "''ABC123456789'' \<noteq> []
   \<and> cmd_start 1 None ''ABC123456789'' tick (Some ''https://t.me/+abc'')
        \<lparr>users = [],
          nfc_keys = [new_row ''ABC123456789'' None (tick 0), new_row ''XYZ000000000'' None (tick 0)],
          access_logs = []\<rparr>
     = (Inr (KeyConfirmed None ''https://t.me/+abc''),
        \<lparr>users = [\<lparr>user_id = 1, username = None, first_seen = tick 0\<rparr>],
          nfc_keys =
            [\<lparr>code = ''ABC123456789'', product_id = None, assigned_user_id = Some 1,
               status = ''claimed'', created_at = tick 0, claimed_at = Some (tick 4)\<rparr>,
             new_row ''XYZ000000000'' None (tick 0)],
          access_logs =
            [start_log 1 ''ABC123456789'' ''attempt'' ''start_param'' (tick 1),
             start_log 1 ''ABC123456789'' ''invite_created'' ''start_flow'' (tick 7)]\<rparr>)
   \<and> fst (attemptClaim_spec ''ABC123456789'' 1 (tick 4)
          (store_of [new_row ''ABC123456789'' None (tick 0), new_row ''XYZ000000000'' None (tick 0)]))
     = GRANTED_NEW
   \<and> store_of
        [\<lparr>code = ''ABC123456789'', product_id = None, assigned_user_id = Some 1,
           status = ''claimed'', created_at = tick 0, claimed_at = Some (tick 4)\<rparr>,
         new_row ''XYZ000000000'' None (tick 0)]
     = snd (attemptClaim_spec ''ABC123456789'' 1 (tick 4)
          (store_of [new_row ''ABC123456789'' None (tick 0), new_row ''XYZ000000000'' None (tick 0)]))
   \<and> fst (cmd_start 2 None ''ABC123456789'' tick (Some ''https://t.me/+def'')
        \<lparr>users = [],
          nfc_keys =
            [\<lparr>code = ''ABC123456789'', product_id = None, assigned_user_id = Some 1,
               status = ''claimed'', created_at = tick 0, claimed_at = Some (tick 4)\<rparr>],
          access_logs = []\<rparr>)
     = Inr OwnedByAnother
   \<and> fst (cmd_start 1 None ''ABC123456789'' tick None
        \<lparr>users = [],
          nfc_keys =
            [\<lparr>code = ''ABC123456789'', product_id = None, assigned_user_id = Some 1,
               status = ''claimed'', created_at = tick 0, claimed_at = Some (tick 4)\<rparr>],
          access_logs = []\<rparr>)
     = Inl InviteError
   \<and> fst (cmd_start 1 None ''ABC123456789'' tick (Some ''https://t.me/+abc'')
        \<lparr>users = [],
          nfc_keys =
            [\<lparr>code = ''ABC123456789'', product_id = None, assigned_user_id = Some 1,
               status = ''revoked'', created_at = tick 0, claimed_at = Some (tick 4)\<rparr>],
          access_logs = []\<rparr>)
     = Inr CodeRevoked
   \<and> fst (cmd_start 1 None ''NOPE00000000'' tick (Some ''https://t.me/+abc'')
        \<lparr>users = [], nfc_keys = [new_row ''ABC123456789'' None (tick 0)], access_logs = []\<rparr>)
     = Inr CodeNotFound"
proof -
  let ?c = "''ABC123456789''"
  let ?db = "[new_row ?c None (tick 0), new_row ''XYZ000000000'' None (tick 0)]"
  let ?w = "\<lparr>users = [], nfc_keys = ?db, access_logs = []\<rparr>"
  let ?r = "\<lparr>code = ?c, product_id = None, assigned_user_id = Some (1::int),
               status = ''claimed'', created_at = tick 0, claimed_at = Some (tick 4)\<rparr>"
  let ?rv = "\<lparr>code = ?c, product_id = None, assigned_user_id = Some (1::int),
               status = ''revoked'', created_at = tick 0, claimed_at = Some (tick 4)\<rparr>"
  let ?w' = "\<lparr>users = [\<lparr>user_id = 1, username = None, first_seen = tick 0\<rparr>],
          nfc_keys = [?r, new_row ''XYZ000000000'' None (tick 0)],
          access_logs =
            [start_log 1 ?c ''attempt'' ''start_param'' (tick 1),
             start_log 1 ?c ''invite_created'' ''start_flow'' (tick 7)]\<rparr>"
  note defs = cmd_start_def Let_def upsert_user_def add_log_def get_key_def new_row_def
    claim_key_for_user_cases update_where_code_def start_log_def
  have h: "?c \<noteq> []" by simp
  have e: "cmd_start 1 None ?c tick (Some ''https://t.me/+abc'') ?w
             = (Inr (KeyConfirmed None ''https://t.me/+abc''), ?w')"
    by (simp add: defs)
  have s: "fst (attemptClaim_spec ?c 1 (tick 4) (store_of ?db)) = GRANTED_NEW"
    by (simp add: attemptClaim_spec_def store_of_def new_row_def)
  obtain res st where sp: "attemptClaim_spec ?c 1 (tick 4) (store_of (nfc_keys ?w)) = (res, st)"
    by (cases "attemptClaim_spec ?c 1 (tick 4) (store_of (nfc_keys ?w))")
  have "store_of (nfc_keys ?w') = st"
    using cmd_start_implements_attemptClaim[OF h, where uid=1 and uname=None and clock=tick
      and invite="Some ''https://t.me/+abc''" and w="?w"]
    unfolding e sp prod.case by blast
  with sp have t: "store_of [?r, new_row ''XYZ000000000'' None (tick 0)]
             = snd (attemptClaim_spec ?c 1 (tick 4) (store_of ?db))"
    by simp
  have o: "fst (cmd_start 2 None ?c tick (Some ''https://t.me/+def'')
             \<lparr>users = [], nfc_keys = [?r], access_logs = []\<rparr>) = Inr OwnedByAnother"
    by (simp add: defs)
  have i: "fst (cmd_start 1 None ?c tick None
             \<lparr>users = [], nfc_keys = [?r], access_logs = []\<rparr>) = Inl InviteError"
    by (simp add: defs)
  have v: "fst (cmd_start 1 None ?c tick (Some ''https://t.me/+abc'')
             \<lparr>users = [], nfc_keys = [?rv], access_logs = []\<rparr>) = Inr CodeRevoked"
    by (simp add: defs)
  have n: "fst (cmd_start 1 None ''NOPE00000000'' tick (Some ''https://t.me/+abc'')
             \<lparr>users = [], nfc_keys = [new_row ?c None (tick 0)], access_logs = []\<rparr>)
           = Inr CodeNotFound"
    by (simp add: defs)
  from h e s t o i v n show ?thesis by blast
qed

subsection \<open>The audit log\<close>

text \<open>
  C6, as the claim states it, fails: a granted \<^verbatim>\<open>/start\<close> writes the entries
  \<^verbatim>\<open>attempt\<close> and \<^verbatim>\<open>invite_created\<close> and none with action \<^verbatim>\<open>granted\<close> or \<^verbatim>\<open>rejected\<close>.
\<close>

theorem cmd_start_audit_counterexample:
  "map action (access_logs (snd (cmd_start 1 None ''ABC123456789'' tick (Some ''https://t.me/+abc'')
      \<lparr>users = [], nfc_keys = [new_row ''ABC123456789'' None (tick 0)], access_logs = []\<rparr>)))
   = [''attempt'', ''invite_created'']
   \<and> fst (cmd_start 1 None ''ABC123456789'' tick (Some ''https://t.me/+abc'')
      \<lparr>users = [], nfc_keys = [new_row ''ABC123456789'' None (tick 0)], access_logs = []\<rparr>)
     = Inr (KeyConfirmed None ''https://t.me/+abc'')"
  by (simp add: cmd_start_def Let_def upsert_user_def add_log_def get_key_def new_row_def
      claim_key_for_user_cases update_where_code_def)

text \<open>
  C6, amended. Every \<^verbatim>\<open>/start\<close> with a non-empty code appends the entry \<^verbatim>\<open>attempt\<close> with
  reason \<^verbatim>\<open>start_param\<close>, and after it: for a rejection one entry \<^verbatim>\<open>rejected\<close> whose
  reason is \<^verbatim>\<open>code_not_found\<close>, \<^verbatim>\<open>code_revoked\<close> or \<^verbatim>\<open>owned_by_another\<close> as the reply is;
  for a grant whose invite link was created one entry \<^verbatim>\<open>invite_created\<close> with reason
  \<^verbatim>\<open>start_flow\<close>; nothing more.
\<close>

theorem cmd_start_audit:
  assumes "c \<noteq> []"
  shows "(case cmd_start uid uname c clock invite w of
            (rep, w') \<Rightarrow>
              access_logs w' =
                access_logs w @ start_log uid c ''attempt'' ''start_param'' (clock 1)
                  # decision_logs uid c clock rep)"
proof (cases "get_key c (nfc_keys w)")
  case None
  with assms show ?thesis by (simp add: cmd_start_def Let_def start_log_def)
next
  case (Some r)
  show ?thesis
  proof (cases "status r = ''revoked''")
    case True
    with assms Some show ?thesis by (simp add: cmd_start_def Let_def start_log_def)
  next
    case False
    obtain ok db' where ck: "claim_key_for_user c uid (clock 4) (nfc_keys w) = (ok, db')"
      by (cases "claim_key_for_user c uid (clock 4) (nfc_keys w)")
    with assms Some False show ?thesis
      by (cases invite) (simp_all add: cmd_start_def Let_def start_log_def)
  qed
qed

theorem cmd_start_audit_witness:
  "''NOPE00000000'' \<noteq> []
   \<and> (case cmd_start 1 None ''NOPE00000000'' tick None
             \<lparr>users = [], nfc_keys = [], access_logs = []\<rparr> of
        (rep, w') \<Rightarrow>
          access_logs w' =
            access_logs \<lparr>users = [], nfc_keys = [], access_logs = []\<rparr>
              @ start_log 1 ''NOPE00000000'' ''attempt'' ''start_param'' (tick 1)
              # decision_logs 1 ''NOPE00000000'' tick rep)"
proof -
  have h: "''NOPE00000000'' \<noteq> []" by simp
  from cmd_start_audit[OF h, where uid=1 and uname=None and clock=tick and invite=None
      and w="\<lparr>users = [], nfc_keys = [], access_logs = []\<rparr>"] h
  show ?thesis by simp
qed

subsection \<open>Revocation, requests in sequence\<close>

lemma revoke_True_revoked:
  assumes "revoke_key c db = (True, db1)"
  shows "\<exists>r. get_key c db1 = Some r \<and> status r = ''revoked''"
proof -
  from assms have db1: "db1 = snd (revoke_key c db)" by simp
  from assms obtain r where "get_key c db = Some r"
    by (auto simp: revoke_key_def split: if_splits)
  then show ?thesis unfolding db1 by (simp add: get_key_revoke)
qed

lemma apply_request_status_step:
  assumes "apply_request q db = Some db'" and "get_key c db = Some r"
    and "status r = ''new'' \<or> status r = ''claimed'' \<or> status r = ''revoked''"
  shows "\<exists>r'. get_key c db' = Some r' \<and> status_step (status r) (status r')"
  using apply_request_get_key[OF assms(1,2)] assms(3)
  by (auto simp: status_step_def)

lemma apply_request_status_ok:
  assumes "apply_request q db = Some db'" and "\<forall>r\<in>set db. status_ok r"
  shows "\<forall>r\<in>set db'. status_ok r"
proof (cases q)
  case (Claim c uid now)
  with assms show ?thesis
    by (auto simp: claim_key_for_user_cases update_where_code_def status_ok_def
        split: option.splits if_splits)
next
  case (Revoke c)
  with assms show ?thesis
    by (auto simp: revoke_key_def update_where_code_def status_ok_def split: if_splits)
next
  case (Generate amount pid clock rnd)
  with assms(1) obtain codes where "create_loop (nat amount) 0 pid clock rnd [] db = Some (codes, db')"
    by (auto simp: create_keys_batch_def)
  from create_loop_Some[OF this] assms(2) show ?thesis
    by (auto simp: status_ok_def new_row_def)
qed

lemma run_status_ok:
  "run qs db = Some db' \<Longrightarrow> \<forall>r\<in>set db. status_ok r \<Longrightarrow> \<forall>r\<in>set db'. status_ok r"
proof (induction qs arbitrary: db)
  case Nil
  then show ?case by simp
next
  case (Cons q qs)
  from Cons.prems(1) obtain db1 where q: "apply_request q db = Some db1"
    and qs: "run qs db1 = Some db'"
    by (auto split: option.splits)
  from Cons.IH[OF qs apply_request_status_ok[OF q Cons.prems(2)]] show ?case .
qed

text \<open>
  When the requests are served one after another: after \<^verbatim>\<open>revoke_key(code)\<close> has
  returned success and after any further requests, the record of the code still has
  status \<^verbatim>\<open>revoked\<close>, a claim by any identity (the owner too) returns \<^verbatim>\<open>False\<close> without
  changing the table, and \<^verbatim>\<open>/start\<close> with the code replies that the key is revoked. And
  one request moves the status of a record only from \<^verbatim>\<open>new\<close> to \<^verbatim>\<open>claimed\<close>, or from
  \<^verbatim>\<open>new\<close> or \<^verbatim>\<open>claimed\<close> to \<^verbatim>\<open>revoked\<close>, or not at all.
\<close>

theorem revoked_kept_in_sequence:
  "(revoke_key c db = (True, db1) \<and> run qs db1 = Some db2 \<longrightarrow>
      map_option status (get_key c db2) = Some ''revoked''
      \<and> claim_key_for_user c uid now db2 = (False, db2)
      \<and> fst (cmd_start uid uname c clock invite (w\<lparr>nfc_keys := db2\<rparr>))
          = (if c = [] then Inr Greeting else Inr CodeRevoked))
   \<and> (apply_request q dbA = Some dbB \<and> get_key c' dbA = Some r \<and> status_ok r \<longrightarrow>
      (\<exists>r'. get_key c' dbB = Some r' \<and> status_step (status r) (status r')))"
proof (intro conjI impI)
  assume a: "revoke_key c db = (True, db1) \<and> run qs db1 = Some db2"
  from a revoke_True_revoked obtain r1 where "get_key c db1 = Some r1" "status r1 = ''revoked''"
    by blast
  from run_revoked[OF _ this] a obtain r2 where
    r2: "get_key c db2 = Some r2" "status r2 = ''revoked''" by blast
  from r2 show "map_option status (get_key c db2) = Some ''revoked''" by simp
  from r2 show "claim_key_for_user c uid now db2 = (False, db2)"
    by (simp add: claim_key_for_user_cases)
  show "fst (cmd_start uid uname c clock invite (w\<lparr>nfc_keys := db2\<rparr>))
          = (if c = [] then Inr Greeting else Inr CodeRevoked)"
  proof (cases "c = []")
    case True
    then show ?thesis by (simp add: cmd_start_def Let_def)
  next
    case False
    from cmd_start_revoked(1)[OF False, where w="w\<lparr>nfc_keys := db2\<rparr>" and r=r2] r2 False
    show ?thesis by simp
  qed
next
  assume "apply_request q dbA = Some dbB \<and> get_key c' dbA = Some r \<and> status_ok r"
  then show "\<exists>r'. get_key c' dbB = Some r' \<and> status_step (status r) (status r')"
    using apply_request_status_step unfolding status_ok_def by blast
qed

theorem revoked_kept_in_sequence_example:
  "(revoke_key ''ABC123456789''
      [\<lparr>code = ''ABC123456789'', product_id = None, assigned_user_id = Some 1,
        status = ''claimed'', created_at = tick 0, claimed_at = Some (tick 1)\<rparr>]
    = (True, [\<lparr>code = ''ABC123456789'', product_id = None, assigned_user_id = Some 1,
        status = ''revoked'', created_at = tick 0, claimed_at = Some (tick 1)\<rparr>])
    \<and> run [Claim ''ABC123456789'' 1 (tick 3), Revoke ''NOPE00000000'']
      [\<lparr>code = ''ABC123456789'', product_id = None, assigned_user_id = Some 1,
        status = ''revoked'', created_at = tick 0, claimed_at = Some (tick 1)\<rparr>]
    = Some [\<lparr>code = ''ABC123456789'', product_id = None, assigned_user_id = Some 1,
        status = ''revoked'', created_at = tick 0, claimed_at = Some (tick 1)\<rparr>])
   \<and> claim_key_for_user ''ABC123456789'' 1 (tick 5)
      [\<lparr>code = ''ABC123456789'', product_id = None, assigned_user_id = Some 1,
        status = ''revoked'', created_at = tick 0, claimed_at = Some (tick 1)\<rparr>]
    = (False, [\<lparr>code = ''ABC123456789'', product_id = None, assigned_user_id = Some 1,
        status = ''revoked'', created_at = tick 0, claimed_at = Some (tick 1)\<rparr>])
   \<and> fst (cmd_start 1 None ''ABC123456789'' tick (Some ''https://t.me/+abc'')
        (\<lparr>users = [], nfc_keys = [], access_logs = []\<rparr>
          \<lparr>nfc_keys := [\<lparr>code = ''ABC123456789'', product_id = None, assigned_user_id = Some 1,
            status = ''revoked'', created_at = tick 0, claimed_at = Some (tick 1)\<rparr>]\<rparr>))
      = Inr CodeRevoked
   \<and> (apply_request (Claim ''ABC123456789'' 1 (tick 1)) [new_row ''ABC123456789'' None (tick 0)]
        = Some [\<lparr>code = ''ABC123456789'', product_id = None, assigned_user_id = Some 1,
            status = ''claimed'', created_at = tick 0, claimed_at = Some (tick 1)\<rparr>]
      \<and> get_key ''ABC123456789'' [new_row ''ABC123456789'' None (tick 0)]
        = Some (new_row ''ABC123456789'' None (tick 0))
      \<and> status_ok (new_row ''ABC123456789'' None (tick 0)))
   \<and> (\<exists>r'. get_key ''ABC123456789''
          [\<lparr>code = ''ABC123456789'', product_id = None, assigned_user_id = Some 1,
            status = ''claimed'', created_at = tick 0, claimed_at = Some (tick 1)\<rparr>] = Some r'
        \<and> status_step (status (new_row ''ABC123456789'' None (tick 0))) (status r'))"
proof -
  let ?c = "''ABC123456789''"
  let ?r = "\<lparr>code = ?c, product_id = None, assigned_user_id = Some (1::int),
        status = ''claimed'', created_at = tick 0, claimed_at = Some (tick 1)\<rparr>"
  let ?rv = "\<lparr>code = ?c, product_id = None, assigned_user_id = Some (1::int),
        status = ''revoked'', created_at = tick 0, claimed_at = Some (tick 1)\<rparr>"
  let ?n = "new_row ?c None (tick 0)"
  have h1: "revoke_key ?c [?r] = (True, [?rv])"
    by (simp add: revoke_key_def get_key_def update_where_code_def)
  have h2: "run [Claim ?c 1 (tick 3), Revoke ''NOPE00000000''] [?rv] = Some [?rv]"
    by (simp add: claim_key_for_user_cases revoke_key_def get_key_def)
  have h3: "apply_request (Claim ?c 1 (tick 1)) [?n] = Some [?r]"
    by (simp add: claim_key_for_user_cases get_key_def update_where_code_def new_row_def)
  have h4: "get_key ?c [?n] = Some ?n" by (simp add: get_key_def new_row_def)
  have h5: "status_ok ?n" by (simp add: new_row_def status_ok_def)
  from revoked_kept_in_sequence[where c="?c" and db="[?r]" and ?db1.0="[?rv]" and ?db2.0="[?rv]"
      and qs="[Claim ?c 1 (tick 3), Revoke ''NOPE00000000'']" and uid=1 and now="tick 5"
      and uname=None and clock=tick and invite="Some ''https://t.me/+abc''"
      and w="\<lparr>users = [], nfc_keys = [], access_logs = []\<rparr>"
      and q="Claim ?c 1 (tick 1)" and dbA="[?n]" and dbB="[?r]" and c'="?c" and r="?n"]
    h1 h2 h3 h4 h5
  show ?thesis by simp
qed

subsection \<open>Batch generation\<close>

lemma fresh_code_candidates:
  "(fresh_code db rnd = None \<longrightarrow> set (candidates rnd) \<subseteq> code ` set db)
   \<and> (\<forall>c rnd'. fresh_code db rnd = Some (c, rnd') \<longrightarrow>
         set (candidates rnd) \<subseteq> code ` set db \<union> insert c (set (candidates rnd')))"
proof (induction db rnd rule: fresh_code.induct)
  case (1 db rnd)
  note unfold = fresh_code.simps[of db rnd] candidates.simps[of rnd]
  show ?case
  proof (cases "gen_code rnd")
    case None
    with unfold show ?thesis by simp
  next
    case (Some p)
    then obtain c0 rnd0 where g: "gen_code rnd = Some (c0, rnd0)" by (cases p) auto
    show ?thesis
    proof (cases "get_key c0 db = None")
      case True
      with g unfold show ?thesis by auto
    next
      case False
      then have "c0 \<in> code ` set db" by (simp add: get_key_None_iff)
      moreover from g False unfold have "fresh_code db rnd = fresh_code db rnd0"
        and "candidates rnd = c0 # candidates rnd0" by simp_all
      ultimately show ?thesis using "1.IH"[OF g refl False] by auto
    qed
  qed
qed

lemma create_loop_terminates:
  "n \<le> card (set (candidates rnd) - code ` set db) \<Longrightarrow>
     \<exists>res. create_loop n i pid clock rnd codes db = Some res"
proof (induction n arbitrary: i rnd codes db)
  case 0
  then show ?case by simp
next
  case (Suc n)
  let ?K = "code ` set db"
  from Suc.prems have "0 < card (set (candidates rnd) - ?K)" by simp
  then have "set (candidates rnd) - ?K \<noteq> {}" by (auto simp: card_gt_0_iff)
  then have "fresh_code db rnd \<noteq> None" using fresh_code_candidates[of db rnd] by auto
  then obtain c rnd' where f: "fresh_code db rnd = Some (c, rnd')" by auto
  let ?db = "db @ [new_row c pid (clock i)]"
  have K': "code ` set ?db = insert c ?K" by (simp add: new_row_def)
  from f fresh_code_candidates[of db rnd]
  have "set (candidates rnd) - ?K \<subseteq> insert c (set (candidates rnd') - code ` set ?db)"
    unfolding K' by auto
  then have "card (set (candidates rnd) - ?K) \<le> card (insert c (set (candidates rnd') - code ` set ?db))"
    by (intro card_mono) simp_all
  also have "\<dots> \<le> Suc (card (set (candidates rnd') - code ` set ?db))"
    by (simp add: card_insert_if)
  finally have "n \<le> card (set (candidates rnd') - code ` set ?db)" using Suc.prems by simp
  from Suc.IH[OF this] f show ?case by simp
qed

text \<open>
  C7. \<^verbatim>\<open>create_keys_batch(N, productId)\<close> returns once the entropy has supplied \<open>N\<close>
  different codes that are not in the table; the codes of the table and repeated draws
  are passed over inside the loop. What it returns is \<open>N\<close> codes (none for a negative
  \<open>N\<close>), pairwise distinct and none of them in the table before; the table after it is
  the table before followed by one row for each code, in order, with status \<^verbatim>\<open>new\<close>, no
  owner, no \<^verbatim>\<open>claimed_at\<close> and the given product id.
\<close>

theorem create_keys_batch_fresh:
  "(nat amount \<le> card (set (candidates rnd) - code ` set db) \<longrightarrow>
      (\<exists>codes db'. create_keys_batch amount pid clock rnd db = Some (codes, db')))
   \<and> (create_keys_batch amount pid clock rnd db = Some (codes, db') \<longrightarrow>
        length codes = nat amount \<and> distinct codes \<and> set codes \<inter> code ` set db = {}
        \<and> take (length db) db' = db
        \<and> map code (drop (length db) db') = codes
        \<and> (\<forall>r\<in>set (drop (length db) db').
              status r = ''new'' \<and> assigned_user_id r = None \<and> claimed_at r = None
              \<and> product_id r = pid))"
proof (rule conjI; rule impI)
  assume "nat amount \<le> card (set (candidates rnd) - code ` set db)"
  from create_loop_terminates[OF this, of 0 pid clock "[]"]
  show "\<exists>codes db'. create_keys_batch amount pid clock rnd db = Some (codes, db')"
    by (auto simp: create_keys_batch_def)
next
  assume "create_keys_batch amount pid clock rnd db = Some (codes, db')"
  then have "create_loop (nat amount) 0 pid clock rnd [] db = Some (codes, db')"
    by (simp add: create_keys_batch_def)
  from create_loop_Some[OF this] obtain cs where cs:
    "length cs = nat amount" "codes = cs"
    "db' = db @ map (\<lambda>(k, c). new_row c pid (clock k)) (zip [0..<nat amount] cs)"
    "distinct cs" "set cs \<inter> code ` set db = {}"
    by auto
  have "map code (map (\<lambda>(k, c). new_row c pid (clock k)) (zip [0..<nat amount] cs)) = map snd (zip [0..<nat amount] cs)"
    by (auto simp: new_row_def)
  also have "\<dots> = cs" using cs(1) by (simp add: map_snd_zip)
  finally have codes: "map code (drop (length db) db') = codes" using cs(2,3) by simp
  have rows: "\<forall>r\<in>set (drop (length db) db').
              status r = ''new'' \<and> assigned_user_id r = None \<and> claimed_at r = None
              \<and> product_id r = pid"
    using cs(3) by (auto simp: new_row_def)
  from cs codes rows
  show "length codes = nat amount \<and> distinct codes \<and> set codes \<inter> code ` set db = {}
        \<and> take (length db) db' = db
        \<and> map code (drop (length db) db') = codes
        \<and> (\<forall>r\<in>set (drop (length db) db').
              status r = ''new'' \<and> assigned_user_id r = None \<and> claimed_at r = None
              \<and> product_id r = pid)"
    by simp
qed

theorem create_keys_batch_fresh_witness:
  "nat 1 \<le> card (set (candidates [0,0,0,0,0,0,0,0,0,0,0,0, 1,1,1,1,1,1,1,1,1,1,1,1])
                 - code ` set [new_row ''AAAAAAAAAAAA'' None (tick 0)])
   \<and> create_keys_batch 1 (Some ''ring-7'') tick [0,0,0,0,0,0,0,0,0,0,0,0, 1,1,1,1,1,1,1,1,1,1,1,1]
        [new_row ''AAAAAAAAAAAA'' None (tick 0)]
      = Some ([''BBBBBBBBBBBB''],
              [new_row ''AAAAAAAAAAAA'' None (tick 0), new_row ''BBBBBBBBBBBB'' (Some ''ring-7'') (tick 0)])
   \<and> length [''BBBBBBBBBBBB''] = nat 1 \<and> distinct [''BBBBBBBBBBBB'']
   \<and> set [''BBBBBBBBBBBB''] \<inter> code ` set [new_row ''AAAAAAAAAAAA'' None (tick 0)] = {}
   \<and> map code (drop (length [new_row ''AAAAAAAAAAAA'' None (tick 0)])
        [new_row ''AAAAAAAAAAAA'' None (tick 0), new_row ''BBBBBBBBBBBB'' (Some ''ring-7'') (tick 0)])
      = [''BBBBBBBBBBBB'']"
proof -
  let ?rnd = "[0,0,0,0,0,0,0,0,0,0,0,0, 1,1,1,1,1,1,1,1,1,1,1,1] :: nat list"
  let ?db = "[new_row ''AAAAAAAAAAAA'' None (tick 0)]"
  let ?db' = "[new_row ''AAAAAAAAAAAA'' None (tick 0), new_row ''BBBBBBBBBBBB'' (Some ''ring-7'') (tick 0)]"
  have c: "candidates ?rnd = [''AAAAAAAAAAAA'', ''BBBBBBBBBBBB'']"
    by (simp add: candidates.simps gen_code_def choice_def alphabet_def)
  have h1: "nat 1 \<le> card (set (candidates ?rnd) - code ` set ?db)"
    unfolding c by (simp add: new_row_def)
  have h2: "create_keys_batch 1 (Some ''ring-7'') tick ?rnd ?db = Some ([''BBBBBBBBBBBB''], ?db')"
    by (simp add: create_keys_batch_def fresh_code.simps gen_code_def choice_def alphabet_def
        get_key_def new_row_def)
  from create_keys_batch_fresh[where amount=1 and rnd="?rnd" and db="?db" and pid="Some ''ring-7''"
      and clock=tick and codes="[''BBBBBBBBBBBB'']" and db'="?db'"] h1 h2
  show ?thesis by simp
qed

text \<open>
  C10. Every code \<^verbatim>\<open>create_keys_batch\<close> returns has twelve characters, each of the
  alphabet of the 26 upper-case letters and the 10 digits, 36 different symbols.
\<close>

theorem create_keys_batch_code_shape:
  assumes "create_keys_batch amount pid clock rnd db = Some (codes, db')" and "c \<in> set codes"
  shows "length c = 12 \<and> set c \<subseteq> set alphabet \<and> length alphabet = 36 \<and> distinct alphabet
         \<and> alphabet = ''ABCDEFGHIJKLMNOPQRSTUVWXYZ'' @ ''0123456789''"
proof -
  from assms(1) have "create_loop (nat amount) 0 pid clock rnd [] db = Some (codes, db')"
    by (simp add: create_keys_batch_def)
  from create_loop_Some[OF this] assms(2) have "length c = 12 \<and> set c \<subseteq> set alphabet"
    by auto
  moreover have "distinct alphabet" by (simp add: alphabet_def)
  moreover have "alphabet = ''ABCDEFGHIJKLMNOPQRSTUVWXYZ'' @ ''0123456789''"
    by (simp add: alphabet_def)
  ultimately show ?thesis by (simp add: length_alphabet)
qed

theorem create_keys_batch_code_shape_witness:
  "create_keys_batch 2 None tick [0,1,2,3,4,5,6,7,8,9,10,11, 35,34,33,32,31,30,29,28,27,26,25,24] []
     = Some ([''ABCDEFGHIJKL'', ''9876543210ZY''],
             [new_row ''ABCDEFGHIJKL'' None (tick 0), new_row ''9876543210ZY'' None (tick 1)])
   \<and> ''9876543210ZY'' \<in> set [''ABCDEFGHIJKL'', ''9876543210ZY'']
   \<and> length ''9876543210ZY'' = 12 \<and> set ''9876543210ZY'' \<subseteq> set alphabet"
proof -
  let ?rnd = "[0,1,2,3,4,5,6,7,8,9,10,11, 35,34,33,32,31,30,29,28,27,26,25,24] :: nat list"
  have h1: "create_keys_batch 2 None tick ?rnd []
     = Some ([''ABCDEFGHIJKL'', ''9876543210ZY''],
             [new_row ''ABCDEFGHIJKL'' None (tick 0), new_row ''9876543210ZY'' None (tick 1)])"
    by (simp add: create_keys_batch_def fresh_code.simps gen_code_def choice_def alphabet_def
        get_key_def new_row_def numeral_2_eq_2)
  have h2: "''9876543210ZY'' \<in> set [''ABCDEFGHIJKL'', ''9876543210ZY'']" by simp
  from create_keys_batch_code_shape[OF h1 h2] h1 h2 show ?thesis by simp
qed

subsection \<open>The \<^verbatim>\<open>/access\<close> handler\<close>

lemma order_desc_limit_1_None: "order_desc_limit_1 rs = None \<longleftrightarrow> rs = []"
  by (induction rs) (auto split: option.splits)

lemma order_desc_limit_1_Some:
  "order_desc_limit_1 rs = Some b \<Longrightarrow> b \<in> set rs \<and> (\<forall>r\<in>set rs. claimed_at r \<le> claimed_at b)"
proof (induction rs arbitrary: b)
  case Nil
  then show ?case by simp
next
  case (Cons r rs)
  show ?case
  proof (cases "order_desc_limit_1 rs")
    case None
    then have "rs = []" by (simp add: order_desc_limit_1_None)
    with Cons.prems show ?thesis by simp
  next
    case (Some b0)
    from Cons.IH[OF Some] have b0: "b0 \<in> set rs" "\<forall>x\<in>set rs. claimed_at x \<le> claimed_at b0"
      by simp_all
    show ?thesis
    proof (cases "claimed_at r < claimed_at b0")
      case True
      with Cons.prems Some have "b = b0" by simp
      with b0 True show ?thesis by auto
    next
      case False
      with Cons.prems Some have "b = r" by simp
      moreover from False have "claimed_at b0 \<le> claimed_at r" by simp
      ultimately show ?thesis using b0 by (auto intro: order_trans)
    qed
  qed
qed

lemma nfc_keys_cmd_access: "nfc_keys (snd (cmd_access uid uname clock invite w)) = nfc_keys w"
  by (simp add: cmd_access_def Let_def split: option.splits)

lemma cmd_access_not_found:
  "fst (cmd_access uid uname clock invite w) = Inr KeyNotFound
     \<longleftrightarrow> latest_claim uid (nfc_keys w) = None"
  by (simp add: cmd_access_def Let_def split: option.splits)

text \<open>
  C8. The query of \<^verbatim>\<open>/access\<close> finds no code exactly when no row has the identity as
  owner and the status \<^verbatim>\<open>claimed\<close>, and then the handler replies that no key was found;
  a code it finds is the code of such a row whose \<^verbatim>\<open>claimed_at\<close> is greatest among those
  rows. The handler leaves \<^verbatim>\<open>nfc_keys\<close> as it is.
\<close>

theorem latest_claim_greatest:
  "(latest_claim uid db = None \<longleftrightarrow>
      (\<forall>r\<in>set db. \<not> (assigned_user_id r = Some uid \<and> status r = ''claimed'')))
   \<and> (latest_claim uid db = Some c \<longrightarrow>
        (\<exists>b\<in>set db. code b = c \<and> assigned_user_id b = Some uid \<and> status b = ''claimed''
           \<and> (\<forall>r\<in>set db. assigned_user_id r = Some uid \<and> status r = ''claimed''
                 \<longrightarrow> claimed_at r \<le> claimed_at b)))
   \<and> nfc_keys (snd (cmd_access uid uname clock invite w)) = nfc_keys w
   \<and> (fst (cmd_access uid uname clock invite w) = Inr KeyNotFound
        \<longleftrightarrow> latest_claim uid (nfc_keys w) = None)"
proof -
  have none: "latest_claim uid db = None \<longleftrightarrow>
      (\<forall>r\<in>set db. \<not> (assigned_user_id r = Some uid \<and> status r = ''claimed''))"
    by (auto simp: latest_claim_def select_claimed_def order_desc_limit_1_None filter_empty_conv)
  have some: "latest_claim uid db = Some c \<longrightarrow>
        (\<exists>b\<in>set db. code b = c \<and> assigned_user_id b = Some uid \<and> status b = ''claimed''
           \<and> (\<forall>r\<in>set db. assigned_user_id r = Some uid \<and> status r = ''claimed''
                 \<longrightarrow> claimed_at r \<le> claimed_at b))"
  proof
    assume "latest_claim uid db = Some c"
    then obtain b where b: "order_desc_limit_1 (select_claimed uid db) = Some b" "code b = c"
      by (auto simp: latest_claim_def)
    from order_desc_limit_1_Some[OF b(1)] b(2) show "\<exists>b\<in>set db. code b = c \<and> assigned_user_id b = Some uid \<and> status b = ''claimed''
           \<and> (\<forall>r\<in>set db. assigned_user_id r = Some uid \<and> status r = ''claimed''
                 \<longrightarrow> claimed_at r \<le> claimed_at b)"
      by (auto simp: select_claimed_def)
  qed
  from none some show ?thesis
    by (simp add: nfc_keys_cmd_access cmd_access_not_found)
qed

theorem latest_claim_greatest_witness:
  "latest_claim 1 sample_keys = Some ''BBBBBBBBBBBB''
   \<and> (\<exists>b\<in>set sample_keys. code b = ''BBBBBBBBBBBB'' \<and> assigned_user_id b = Some 1
         \<and> status b = ''claimed''
         \<and> (\<forall>r\<in>set sample_keys. assigned_user_id r = Some 1 \<and> status r = ''claimed''
               \<longrightarrow> claimed_at r \<le> claimed_at b))
   \<and> select_claimed 3 sample_keys = []
   \<and> latest_claim 3 sample_keys = None
   \<and> fst (cmd_access 3 None tick (Some ''https://t.me/+abc'')
            \<lparr>users = [], nfc_keys = sample_keys, access_logs = []\<rparr>) = Inr KeyNotFound
   \<and> nfc_keys (snd (cmd_access 1 None tick (Some ''https://t.me/+abc'')
            \<lparr>users = [], nfc_keys = sample_keys, access_logs = []\<rparr>)) = sample_keys"
proof -
  let ?w = "\<lparr>users = [], nfc_keys = sample_keys, access_logs = []\<rparr>"
  have h1: "latest_claim 1 sample_keys = Some ''BBBBBBBBBBBB''"
    by (simp add: latest_claim_def select_claimed_def sample_keys_def tick_def)
  have h3: "\<forall>r\<in>set sample_keys. \<not> (assigned_user_id r = Some 3 \<and> status r = ''claimed'')"
    by (simp add: sample_keys_def)
  have w: "nfc_keys ?w = sample_keys" by simp
  note a = latest_claim_greatest[where uid=1 and db=sample_keys and c="''BBBBBBBBBBBB''"
      and uname=None and clock=tick and invite="Some ''https://t.me/+abc''" and w="?w"]
  note b = latest_claim_greatest[where uid=3 and db=sample_keys and c="''BBBBBBBBBBBB''"
      and uname=None and clock=tick and invite="Some ''https://t.me/+abc''" and w="?w"]
  from a h1 have p1: "\<exists>b\<in>set sample_keys. code b = ''BBBBBBBBBBBB'' \<and> assigned_user_id b = Some 1
         \<and> status b = ''claimed''
         \<and> (\<forall>r\<in>set sample_keys. assigned_user_id r = Some 1 \<and> status r = ''claimed''
               \<longrightarrow> claimed_at r \<le> claimed_at b)"
    by blast
  from a w have p2: "nfc_keys (snd (cmd_access 1 None tick (Some ''https://t.me/+abc'') ?w)) = sample_keys"
    by simp
  from b h3 have p3: "latest_claim 3 sample_keys = None" by blast
  with b w have p4: "fst (cmd_access 3 None tick (Some ''https://t.me/+abc'') ?w) = Inr KeyNotFound"
    by simp
  have p5: "select_claimed 3 sample_keys = []"
    by (simp add: select_claimed_def sample_keys_def)
  from h1 p1 p5 p3 p4 p2 show ?thesis by blast
qed

subsection \<open>A claim that writes after a stale read\<close>

lemma claim_key_for_user_stale: "claim_key_for_user c uid now db = stale_claim c uid now db db"
  by (simp add: claim_key_for_user_def stale_claim_def)

text \<open>Whatever the table has become, a call that read a record without owner and not
  revoked is granted and writes its owner, the status \<^verbatim>\<open>claimed\<close> and its time into the
  rows with the code.\<close>

lemma stale_claim_writes:
  assumes "get_key c db_read = Some r" and "status r \<noteq> ''revoked''"
    and "assigned_user_id r = None"
  shows "stale_claim c uid now db_read db_now =
           (True, map (\<lambda>r. if code r = c
                            then r\<lparr>assigned_user_id := Some uid, status := ''claimed'',
                                   claimed_at := Some now\<rparr>
                            else r) db_now)"
  using assms
  by (simp add: stale_claim_def claim_select_def claim_decide_def update_where_code_def)

text \<open>
  C2. The claim asks that an owner, once set, is never overwritten. The call of
  identity 2 reads the fresh code \<^verbatim>\<open>ABC123456789\<close> before the call of identity 1 has
  committed and writes after it: the record has owner 1 when the UPDATE of identity 2
  runs, and owner 2 after it; both calls return \<^verbatim>\<open>True\<close>.
\<close>

theorem stale_claim_replaces_owner:
  "claim_key_for_user ''ABC123456789'' 1 (tick 1) [new_row ''ABC123456789'' None (tick 0)]
     = (True,
        [\<lparr>code = ''ABC123456789'', product_id = None, assigned_user_id = Some 1,
          status = ''claimed'', created_at = tick 0, claimed_at = Some (tick 1)\<rparr>])
   \<and> stale_claim ''ABC123456789'' 2 (tick 2) [new_row ''ABC123456789'' None (tick 0)]
        [\<lparr>code = ''ABC123456789'', product_id = None, assigned_user_id = Some 1,
          status = ''claimed'', created_at = tick 0, claimed_at = Some (tick 1)\<rparr>]
     = (True,
        [\<lparr>code = ''ABC123456789'', product_id = None, assigned_user_id = Some 2,
          status = ''claimed'', created_at = tick 0, claimed_at = Some (tick 2)\<rparr>])"
  by (simp add: claim_key_for_user_cases stale_claim_def claim_select_def claim_decide_def
      get_key_def update_where_code_def new_row_def)

text \<open>
  C5. The claim asks that nothing moves a status out of \<^verbatim>\<open>revoked\<close> and that no claim is
  granted after a successful revoke. The call of identity 1 reads the fresh code
  \<^verbatim>\<open>ABC123456789\<close>, then \<^verbatim>\<open>revoke_key\<close> commits and returns success, then the call writes:
  the status goes from \<^verbatim>\<open>revoked\<close> to \<^verbatim>\<open>claimed\<close>, the call returns \<^verbatim>\<open>True\<close>, and the
  later claim and \<^verbatim>\<open>/start\<close> of identity 1 are granted.
\<close>

theorem stale_claim_undoes_revoke:
  "revoke_key ''ABC123456789'' [new_row ''ABC123456789'' None (tick 0)]
     = (True,
        [\<lparr>code = ''ABC123456789'', product_id = None, assigned_user_id = None,
          status = ''revoked'', created_at = tick 0, claimed_at = None\<rparr>])
   \<and> stale_claim ''ABC123456789'' 1 (tick 2) [new_row ''ABC123456789'' None (tick 0)]
        [\<lparr>code = ''ABC123456789'', product_id = None, assigned_user_id = None,
          status = ''revoked'', created_at = tick 0, claimed_at = None\<rparr>]
     = (True,
        [\<lparr>code = ''ABC123456789'', product_id = None, assigned_user_id = Some 1,
          status = ''claimed'', created_at = tick 0, claimed_at = Some (tick 2)\<rparr>])
   \<and> claim_key_for_user ''ABC123456789'' 1 (tick 3)
        [\<lparr>code = ''ABC123456789'', product_id = None, assigned_user_id = Some 1,
          status = ''claimed'', created_at = tick 0, claimed_at = Some (tick 2)\<rparr>]
     = (True,
        [\<lparr>code = ''ABC123456789'', product_id = None, assigned_user_id = Some 1,
          status = ''claimed'', created_at = tick 0, claimed_at = Some (tick 2)\<rparr>])
   \<and> fst (cmd_start 1 None ''ABC123456789'' tick (Some ''https://t.me/+abc'')
        \<lparr>users = [],
          nfc_keys =
            [\<lparr>code = ''ABC123456789'', product_id = None, assigned_user_id = Some 1,
              status = ''claimed'', created_at = tick 0, claimed_at = Some (tick 2)\<rparr>],
          access_logs = []\<rparr>)
     = Inr (KeyConfirmed None ''https://t.me/+abc'')"
  by (simp add: revoke_key_def claim_key_for_user_cases stale_claim_def claim_select_def
      claim_decide_def get_key_def update_where_code_def new_row_def cmd_start_def Let_def
      upsert_user_def add_log_def)

subsection \<open>Two claims at the same time\<close>

text \<open>When both SELECTs see a record without owner, both calls are granted and the
  second UPDATE replaces the owner the first one wrote.\<close>

lemma interleaved_claims_both_granted:
  assumes "get_key c db = Some r" and "status r \<noteq> ''revoked''" and "assigned_user_id r = None"
  shows "fst (interleaved_claims c u1 t1 u2 t2 db) = (True, True)"
    and "map_option assigned_user_id (get_key c (snd (claim_decide c u1 t1 (claim_select c db) db)))
           = Some (Some u1)"
    and "map_option assigned_user_id (get_key c (snd (interleaved_claims c u1 t1 u2 t2 db)))
           = Some (Some u2)"
  using assms
  by (simp_all add: interleaved_claims_def claim_select_def claim_decide_def Let_def
      get_key_update_where_code)

text \<open>
  C1. The claim asks that of two simultaneous claims of a never-claimed code by
  different identities at most one succeeds. With the SELECTs of both calls before
  either UPDATE, the calls of identities 1 and 2 for the fresh code \<^verbatim>\<open>ABC123456789\<close> both
  return \<^verbatim>\<open>True\<close>; the table holds owner 1 after the first commit and owner 2 after the
  second.
\<close>

theorem interleaved_claims_two_owners:
  "interleaved_claims ''ABC123456789'' 1 (tick 1) 2 (tick 2) [new_row ''ABC123456789'' None (tick 0)]
     = ((True, True),
        [\<lparr>code = ''ABC123456789'', product_id = None, assigned_user_id = Some 2,
          status = ''claimed'', created_at = tick 0, claimed_at = Some (tick 2)\<rparr>])
   \<and> claim_decide ''ABC123456789'' 1 (tick 1)
        (claim_select ''ABC123456789'' [new_row ''ABC123456789'' None (tick 0)])
        [new_row ''ABC123456789'' None (tick 0)]
     = (True,
        [\<lparr>code = ''ABC123456789'', product_id = None, assigned_user_id = Some 1,
          status = ''claimed'', created_at = tick 0, claimed_at = Some (tick 1)\<rparr>])"
  by (simp add: interleaved_claims_def claim_select_def claim_decide_def get_key_def
      update_where_code_def new_row_def Let_def)

end
